theory Spec2Isabelle
  imports Complex_Main
begin

section \<open>Data model of \<open>SnakeGameEnv\<close>\<close>

text \<open>
  A position is the two-element Python list \<open>[row, col]\<close>; Python integers are
  unbounded, so both coordinates are \<open>int\<close>. Every position of the source is its own list
  object (\<open>.copy()\<close> is used at each assignment and append), so there is no aliasing
  between body pieces and a value model is exact.
\<close>

type_synonym pos = "int \<times> int"

text \<open>
  The failures a call can raise: the \<open>assert\<close> at the top of \<open>step\<close>, and the
  \<open>IndexError\<close> of \<open>self.snake[0]\<close> on an empty body.
\<close>

datatype error = AssertionError | IndexError

text \<open>
  The one diagnostic of the source: the \<open>logger.warn\<close> call of \<open>step\<close>, whose message
  says that \<open>step()\<close> is being called although the environment has already returned
  \<open>done = True\<close>.
\<close>

datatype diagnostic = Warn_step_after_done

text \<open>
  The fields of the environment object that the simulation reads and writes, after
  \<open>reset\<close> has filled them. \<open>draws\<close> is not a field of the class: it counts the integers
  taken so far from the generator of the \<open>random\<close> module, whose outcomes are the
  sequence \<open>rnd :: nat \<Rightarrow> nat\<close> given to every function that draws.
\<close>

record env =
  snake :: "pos list"
  apple :: pos
  global_snake_direction :: int
  state :: "int list"
  draws :: nat

text \<open>What \<open>step\<close> returns (the \<open>info\<close> dictionary is always empty), with the
  diagnostics it has logged; \<open>done_flag\<close> is the returned \<open>done\<close>.\<close>

record step_out =
  observation :: "int list"
  reward :: real
  done_flag :: bool
  logged :: "diagnostic list"

section \<open>Direction mapper\<close>

definition relative_to_global_direction :: "int \<Rightarrow> int \<Rightarrow> int" where
  "relative_to_global_direction global_direction relative_direction =
     (if relative_direction = 0 then
        (let g = global_direction + 1 in if g = 5 then 0 else g)
      else if relative_direction = 2 then
        (let g = global_direction - 1 in if g = -1 then 4 else g)
      else global_direction)"

section \<open>Movement\<close>

text \<open>
  The loop \<open>for i in range(len(self.snake) - 1, 0, -1)\<close>: \<open>shift_loop n s\<close> runs the
  iterations \<open>i = n, n - 1, ..., 1\<close> on the body \<open>s\<close>.
\<close>

fun shift_loop :: "nat \<Rightarrow> pos list \<Rightarrow> pos list" where
  "shift_loop 0 s = s"
| "shift_loop (Suc i) s =
     shift_loop i (if s ! Suc i \<noteq> s ! i then s[Suc i := s ! i] else s)"

definition move_head :: "int \<Rightarrow> pos \<Rightarrow> pos" where
  "move_head d h =
     (if d = 0 then (fst h - 1, snd h)
      else if d = 1 then (fst h, snd h + 1)
      else if d = 2 then (fst h + 1, snd h)
      else (fst h, snd h - 1))"

definition move_snake :: "env \<Rightarrow> error + env" where
  "move_snake e =
     (let s = shift_loop (length (snake e) - 1) (snake e) in
      case s of
        [] \<Rightarrow> Inl IndexError
      | h # t \<Rightarrow> Inr (e\<lparr>snake := move_head (global_snake_direction e) h # t\<rparr>))"

section \<open>Growth and spawn\<close>

text \<open>\<open>random.randint(lo, hi)\<close>: the raw outcome \<open>r\<close> reduced to the closed range.\<close>

definition randint :: "int \<Rightarrow> int \<Rightarrow> nat \<Rightarrow> int" where
  "randint lo hi r = lo + int (r mod nat (hi - lo + 1))"

definition generate_new_random_apple :: "(nat \<Rightarrow> nat) \<Rightarrow> env \<Rightarrow> env" where
  "generate_new_random_apple rnd e =
     e\<lparr>apple := (randint 0 14 (rnd (draws e)), randint 0 14 (rnd (draws e + 1))),
       draws := draws e + 2\<rparr>"

text \<open>
  The loop \<open>for piece in self.snake\<close> of \<open>check_if_ate_apple\<close>. A Python list iterator
  keeps an index and compares it with the current length at every iteration, so pieces
  appended inside the loop are visited too, and they are compared with the apple
  generated inside the loop. The loop has no bound of its own: not returning is \<open>None\<close>.
\<close>

partial_function (option) ate_apple_loop :: "(nat \<Rightarrow> nat) \<Rightarrow> nat \<Rightarrow> env \<Rightarrow> env option" where
  "ate_apple_loop rnd i e =
     (if i < length (snake e) then
        (if snake e ! i = apple e then
           ate_apple_loop rnd (i + 1)
             (generate_new_random_apple rnd (e\<lparr>snake := snake e @ [last (snake e)]\<rparr>))
         else ate_apple_loop rnd (i + 1) e)
      else Some e)"

declare ate_apple_loop.simps [code]

text \<open>
  \<open>check_if_ate_apple\<close> has no \<open>return\<close> statement: the value of the call is Python's
  \<open>None\<close>, here the \<open>None\<close> of \<open>bool option\<close>, next to the environment it leaves.
\<close>

definition check_if_ate_apple :: "(nat \<Rightarrow> nat) \<Rightarrow> env \<Rightarrow> (env \<times> bool option) option" where
  "check_if_ate_apple rnd e = map_option (\<lambda>e'. (e', None)) (ate_apple_loop rnd 0 e)"

text \<open>Truth value of a Python object that is \<open>None\<close>, \<open>True\<close> or \<open>False\<close>.\<close>

fun truthy :: "bool option \<Rightarrow> bool" where
  "truthy None = False"
| "truthy (Some b) = b"

section \<open>Collision and win\<close>

definition check_if_hit_wall :: "env \<Rightarrow> bool" where
  "check_if_hit_wall e =
     (let head_x = fst (hd (snake e)); head_y = snd (hd (snake e)) in
      if head_x > 14 then True
      else if head_y > 14 then True
      else if head_x < 0 then True
      else if head_y < 0 then True
      else False)"

definition check_if_hit_itself :: "env \<Rightarrow> bool" where
  "check_if_hit_itself e = (if hd (snake e) \<in> set (tl (snake e)) then True else False)"

definition x_size :: int where "x_size = 15"
definition y_size :: int where "y_size = 15"

definition check_if_won :: "env \<Rightarrow> bool" where
  "check_if_won e = (if int (length (snake e)) = x_size * y_size then True else False)"

section \<open>Sensor array\<close>

text \<open>
  The loop \<open>for distance in range(15)\<close> shared by the three ray functions: \<open>hit\<close> is the
  test that breaks out of it, \<open>p\<close> the running \<open>ray_position\<close>, and the last argument the
  current value of the loop variable \<open>distance\<close>, which is what gets appended.
\<close>

fun ray_loop :: "(pos \<Rightarrow> bool) \<Rightarrow> int \<Rightarrow> int \<Rightarrow> int list \<Rightarrow> pos \<Rightarrow> int \<Rightarrow> int" where
  "ray_loop hit y_behaviour x_behaviour [] p distance = distance"
| "ray_loop hit y_behaviour x_behaviour (d # ds) p distance =
     (let p' = (fst p + y_behaviour, snd p + x_behaviour) in
      if hit p' then d else ray_loop hit y_behaviour x_behaviour ds p' d)"

definition apple_ray :: "env \<Rightarrow> int \<Rightarrow> int \<Rightarrow> int" where
  "apple_ray e y_behaviour x_behaviour =
     ray_loop (\<lambda>p. p = apple e) y_behaviour x_behaviour [0..14] (hd (snake e)) 0"

definition wall_ray :: "env \<Rightarrow> int \<Rightarrow> int \<Rightarrow> int" where
  "wall_ray e y_behaviour x_behaviour =
     ray_loop (\<lambda>p. fst p < 0 \<or> fst p > 14 \<or> snd p < 0 \<or> snd p > 14)
       y_behaviour x_behaviour [0..14] (hd (snake e)) 0"

definition snake_piece_ray :: "env \<Rightarrow> int \<Rightarrow> int \<Rightarrow> int" where
  "snake_piece_ray e y_behaviour x_behaviour =
     ray_loop (\<lambda>p. p \<in> set (tl (snake e))) y_behaviour x_behaviour [0..14] (hd (snake e)) 0"

text \<open>\<open>rotate(l, n) = l[-n:] + l[:-n]\<close>, for the \<open>n \<ge> 0\<close> that \<open>rotate_obs\<close> passes.\<close>

definition rotate_list :: "'a list \<Rightarrow> nat \<Rightarrow> 'a list" where
  "rotate_list l n = drop (length l - n) l @ take (length l - n) l"

definition rotate_obs :: "int \<Rightarrow> 'a list \<Rightarrow> 'a list" where
  "rotate_obs d obs =
     (if d = 0 then obs
      else if d = 1 then rotate_list obs 2
      else if d = 2 then rotate_list obs 4
      else rotate_list obs 6)"

text \<open>
  The eight \<open>(y_behaviour, x_behaviour)\<close> pairs in the order in which each of the three
  observation functions casts its rays.
\<close>

definition ray_directions :: "(int \<times> int) list" where
  "ray_directions = [(-1, 0), (-1, 1), (0, 1), (1, 1), (1, 0), (1, -1), (0, -1), (-1, -1)]"

text \<open>
  Each observation function raises \<open>IndexError\<close> in its first ray when the body is
  empty (\<open>self.snake[0].copy()\<close>).
\<close>

definition apple_ray_observation :: "env \<Rightarrow> error + int list" where
  "apple_ray_observation e =
     (if snake e = [] then Inl IndexError
      else Inr (rotate_obs (global_snake_direction e)
             (map (\<lambda>(dy, dx). apple_ray e dy dx) ray_directions)))"

definition wall_ray_observation :: "env \<Rightarrow> error + int list" where
  "wall_ray_observation e =
     (if snake e = [] then Inl IndexError
      else Inr (rotate_obs (global_snake_direction e)
             (map (\<lambda>(dy, dx). wall_ray e dy dx) ray_directions)))"

definition snake_piece_ray_observation :: "env \<Rightarrow> error + int list" where
  "snake_piece_ray_observation e =
     (if snake e = [] then Inl IndexError
      else Inr (rotate_obs (global_snake_direction e)
             (map (\<lambda>(dy, dx). snake_piece_ray e dy dx) ray_directions)))"

definition generate_state :: "env \<Rightarrow> error + env" where
  "generate_state e =
     (case apple_ray_observation e of
        Inl err \<Rightarrow> Inl err
      | Inr a \<Rightarrow>
          (case wall_ray_observation e of
             Inl err \<Rightarrow> Inl err
           | Inr w \<Rightarrow>
               (case snake_piece_ray_observation e of
                  Inl err \<Rightarrow> Inl err
                | Inr b \<Rightarrow> Inr (e\<lparr>state := [int (length (snake e))] @ a @ w @ b\<rparr>))))"

section \<open>Episode controller\<close>

definition initial_parts :: "env \<Rightarrow> env" where
  "initial_parts e = e\<lparr>snake := [(7, 4), (7, 3)], apple := (7, 11)\<rparr>"

text \<open>
  \<open>step\<close> returns the environment it leaves behind together with what the call gives
  its caller: an error raised, or the returned tuple. \<open>None\<close> is a call that never
  returns. A mutation made before an exception is raised stays in the environment.
\<close>

definition step :: "(nat \<Rightarrow> nat) \<Rightarrow> int \<Rightarrow> env \<Rightarrow> (env \<times> (error + step_out)) option" where
  "step rnd action e =
     (if \<not> (0 \<le> action \<and> action < 3) then Some (e, Inl AssertionError)
      else
        let e1 = e\<lparr>global_snake_direction :=
                    relative_to_global_direction (global_snake_direction e) action\<rparr> in
        case move_snake e1 of
          Inl err \<Rightarrow> Some (e1, Inl err)
        | Inr e2 \<Rightarrow>
            (case check_if_ate_apple rnd e2 of
               None \<Rightarrow> None
             | Some (e3, ate_apple) \<Rightarrow>
                 let died = (check_if_hit_wall e3 \<or> check_if_hit_itself e3);
                     won = check_if_won e3
                 in
                 (case generate_state e3 of
                    Inl err \<Rightarrow> Some (e3, Inl err)
                  | Inr e4 \<Rightarrow>
                      let done_flag = (died \<or> won);
                          reward = (if \<not> done_flag then (if truthy ate_apple then 10 else 1) else 0);
                          logged = (if done_flag then [Warn_step_after_done] else [])
                      in Some (e4, Inr \<lparr>observation = state e4, reward = reward,
                                         done_flag = done_flag, logged = logged\<rparr>))))"

definition reset :: "env \<Rightarrow> env \<times> (error + int list)" where
  "reset e =
     (let e1 = (initial_parts e)\<lparr>global_snake_direction := 1\<rparr> in
      case generate_state e1 of
        Inl err \<Rightarrow> (e1, Inl err)
      | Inr e2 \<Rightarrow> (e2, Inr (state e2)))"

text \<open>
  A caller's episode: \<open>reset\<close>, then one \<open>step\<close> per action, each on the environment the
  previous call left. It returns the result of every \<open>step\<close> in order.
\<close>

fun run_steps :: "(nat \<Rightarrow> nat) \<Rightarrow> int list \<Rightarrow> env \<Rightarrow> (env \<times> (error + step_out) list) option" where
  "run_steps rnd [] e = Some (e, [])"
| "run_steps rnd (a # as) e =
     (case step rnd a e of
        None \<Rightarrow> None
      | Some (e', r) \<Rightarrow> map_option (\<lambda>(ef, rs). (ef, r # rs)) (run_steps rnd as e'))"

definition fresh :: env where
  "fresh = \<lparr>snake = [], apple = (0, 0), global_snake_direction = 0, state = [], draws = 0\<rparr>"

definition episode :: "(nat \<Rightarrow> nat) \<Rightarrow> int list \<Rightarrow> (env \<times> (error + step_out) list) option" where
  "episode rnd as = run_steps rnd as (fst (reset fresh))"

section \<open>Concrete episodes\<close>

text \<open>
  Three outcome sequences of the generator. With \<open>rnd_corner\<close> every new apple is at
  \<open>(0, 0)\<close>. With \<open>rnd_tail_once\<close> the first new apple is at \<open>(7, 10)\<close> and the later
  ones at \<open>(0, 0)\<close>. With \<open>rnd_tail_223\<close> the first 223 new apples are at \<open>(7, 10)\<close> and
  the later ones at \<open>(0, 0)\<close>.
\<close>

definition rnd_corner :: "nat \<Rightarrow> nat" where
  "rnd_corner k = 0"

definition rnd_tail_once :: "nat \<Rightarrow> nat" where
  "rnd_tail_once k = (if k = 0 then 7 else if k = 1 then 10 else 0)"

definition rnd_tail_223 :: "nat \<Rightarrow> nat" where
  "rnd_tail_223 k = (if k < 446 then (if even k then 7 else 10) else 0)"

text \<open>
  The environment six straight steps after \<open>reset\<close>: the head is one tile before the
  apple. \<open>after_move\<close> is what \<open>move_snake\<close> makes of it.
\<close>

definition before_apple :: env where
  "before_apple =
     \<lparr>snake = [(7, 10), (7, 9)], apple = (7, 11), global_snake_direction = 1,
      state = [2, 14, 14, 14, 14, 0, 14, 14, 14, 10, 7, 7, 4, 4, 4, 7, 7,
               0, 14, 14, 14, 14, 14, 14, 14],
      draws = 0\<rparr>"

definition after_move :: env where
  "after_move = before_apple\<lparr>snake := [(7, 11), (7, 10)]\<rparr>"

text \<open>A snake of three pieces whose head is on the last column, heading right.\<close>

definition at_right_wall :: env where
  "at_right_wall =
     \<lparr>snake = [(3, 14), (3, 13), (3, 12)], apple = (7, 11), global_snake_direction = 1,
      state = [], draws = 0\<rparr>"

text \<open>What \<open>step\<close> with action 1 leaves and returns on \<open>at_right_wall\<close>.\<close>

definition past_right_wall :: env where
  "past_right_wall =
     \<lparr>snake = [(3, 15), (3, 14), (3, 13)], apple = (7, 11), global_snake_direction = 1,
      state = [3, 14, 14, 14, 14, 14, 14, 14, 3, 14, 3, 0, 0, 0, 0, 0, 11,
               0, 14, 14, 14, 14, 14, 14, 14],
      draws = 0\<rparr>"

definition past_right_wall_out :: step_out where
  "past_right_wall_out =
     \<lparr>observation = [3, 14, 14, 14, 14, 14, 14, 14, 3, 14, 3, 0, 0, 0, 0, 0, 11,
                     0, 14, 14, 14, 14, 14, 14, 14],
      reward = 0, done_flag = True, logged = [Warn_step_after_done]\<rparr>"

text \<open>
  The environment that the growth phase leaves from \<open>after_move\<close> when 223 new
  apples in a row are drawn on the tail: a head and 225 copies of the tail.
\<close>

definition grown_226 :: env where
  "grown_226 =
     after_move\<lparr>snake := (7, 11) # replicate 225 (7, 10), apple := (0, 0),
                draws := 448\<rparr>"

section \<open>The movement loop\<close>

lemma shift_loop_length: "length (shift_loop n s) = length s"
  by (induction n arbitrary: s) auto

lemma shift_loop_nth:
  "n < length s \<Longrightarrow> j < length s \<Longrightarrow>
   shift_loop n s ! j = (if 0 < j \<and> j \<le> n then s ! (j - 1) else s ! j)"
proof (induction n arbitrary: s j)
  case 0
  then show ?case by simp
next
  case (Suc n)
  let ?s' = "if s ! Suc n \<noteq> s ! n then s[Suc n := s ! n] else s"
  have n: "n < length ?s'" using Suc.prems by simp
  have j: "j < length ?s'" using Suc.prems by simp
  have "shift_loop (Suc n) s ! j = shift_loop n ?s' ! j" by simp
  also have "\<dots> = (if 0 < j \<and> j \<le> n then ?s' ! (j - 1) else ?s' ! j)"
    using Suc.IH [OF n j] .
  also have "\<dots> = (if 0 < j \<and> j \<le> Suc n then s ! (j - 1) else s ! j)"
    using Suc.prems by (auto simp: nth_list_update le_Suc_eq)
  finally show ?case .
qed

lemma move_snake_body:
  assumes ne: "snake e \<noteq> []"
  shows "\<exists>t. move_snake e =
           Inr (e\<lparr>snake := move_head (global_snake_direction e) (hd (snake e)) # t\<rparr>) \<and>
     length t = length (snake e) - 1 \<and>
     (\<forall>i. 0 < i \<and> i < length (snake e) \<longrightarrow> t ! (i - 1) = snake e ! (i - 1))"
proof -
  let ?s = "shift_loop (length (snake e) - 1) (snake e)"
  have len: "length ?s = length (snake e)" by (rule shift_loop_length)
  obtain h t where s: "?s = h # t" using ne len by (cases ?s) auto
  have n: "length (snake e) - 1 < length (snake e)" using ne by (cases "snake e") auto
  have h: "h = hd (snake e)"
    using shift_loop_nth [OF n, of 0] ne s by (simp add: hd_conv_nth)
  have t: "t ! (i - 1) = snake e ! (i - 1)" if "0 < i" "i < length (snake e)" for i
  proof -
    have "i \<le> length (snake e) - 1" using that by arith
    then have "?s ! i = snake e ! (i - 1)"
      using shift_loop_nth [OF n that(2)] that(1) by simp
    moreover have "?s ! i = t ! (i - 1)" using s that by (simp add: nth_Cons')
    ultimately show ?thesis by simp
  qed
  have "length t = length (snake e) - 1" using len s by simp
  moreover have "move_snake e =
      Inr (e\<lparr>snake := move_head (global_snake_direction e) (hd (snake e)) # t\<rparr>)"
    using s h by (simp add: move_snake_def)
  ultimately show ?thesis using t by blast
qed

section \<open>The observation vector\<close>

lemma generate_state_snake: "generate_state e = Inr e' \<Longrightarrow> snake e' = snake e"
  by (auto simp: generate_state_def split: sum.splits)

lemma generate_state_returns: "snake e \<noteq> [] \<Longrightarrow> \<exists>e'. generate_state e = Inr e'"
  by (simp add: generate_state_def apple_ray_observation_def wall_ray_observation_def
      snake_piece_ray_observation_def)

lemma ray_loop_range: "ray_loop hit dy dx ds p d \<in> insert d (set ds)"
  by (induction ds arbitrary: p d) (auto simp: Let_def)

lemma ray_loop_bounds:
  "0 \<le> ray_loop hit dy dx [0..14] p 0 \<and> ray_loop hit dy dx [0..14] p 0 \<le> 14"
  using ray_loop_range [of hit dy dx "[0..14]" p 0] by auto

lemma rotate_list_set: "set (rotate_list l n) = set l"
  unfolding rotate_list_def by (metis Un_commute append_take_drop_id set_append)

lemma rotate_list_length: "length (rotate_list l n) = length l"
  by (simp add: rotate_list_def)

lemma rotate_obs_set: "set (rotate_obs d obs) = set obs"
  by (simp add: rotate_obs_def rotate_list_set)

lemma rotate_obs_length: "length (rotate_obs d obs) = length obs"
  by (simp add: rotate_obs_def rotate_list_length)

text \<open>
  Where the element at index 0 of a rotated 8-vector comes from: the up ray for heading
  0, the left ray for heading 1, the down ray for heading 2, the right ray for headings
  3 and 4.
\<close>

lemma rotate_obs_index0:
  "length obs = 8 \<Longrightarrow>
   rotate_obs 0 obs ! 0 = obs ! 0 \<and> rotate_obs 1 obs ! 0 = obs ! 6 \<and>
   rotate_obs 2 obs ! 0 = obs ! 4 \<and> rotate_obs 3 obs ! 0 = obs ! 2 \<and>
   rotate_obs 4 obs ! 0 = obs ! 2"
  by (simp add: rotate_obs_def rotate_list_def nth_append)

lemma rays_shape:
  assumes "\<And>dy dx. 0 \<le> f dy dx \<and> f dy dx \<le> (14::int)"
  shows "length (rotate_obs d (map (\<lambda>(dy, dx). f dy dx) ray_directions)) = 8 \<and>
         set (rotate_obs d (map (\<lambda>(dy, dx). f dy dx) ray_directions)) \<subseteq> {0..14}"
proof -
  have "length (map (\<lambda>(dy, dx). f dy dx) ray_directions) = 8"
    by (simp add: ray_directions_def)
  moreover have "set (map (\<lambda>(dy, dx). f dy dx) ray_directions) \<subseteq> {0..14}"
    using assms by auto
  ultimately show ?thesis by (simp add: rotate_obs_set rotate_obs_length)
qed

lemma apple_ray_observation_shape:
  assumes "apple_ray_observation e = Inr a"
  shows "length a = 8 \<and> set a \<subseteq> {0..14}"
proof -
  have "a = rotate_obs (global_snake_direction e)
              (map (\<lambda>(dy, dx). apple_ray e dy dx) ray_directions)"
    using assms by (simp add: apple_ray_observation_def split: if_splits)
  then show ?thesis
    using rays_shape [of "apple_ray e"] by (simp add: apple_ray_def ray_loop_bounds)
qed

lemma wall_ray_observation_shape:
  assumes "wall_ray_observation e = Inr a"
  shows "length a = 8 \<and> set a \<subseteq> {0..14}"
proof -
  have "a = rotate_obs (global_snake_direction e)
              (map (\<lambda>(dy, dx). wall_ray e dy dx) ray_directions)"
    using assms by (simp add: wall_ray_observation_def split: if_splits)
  then show ?thesis
    using rays_shape [of "wall_ray e"] by (simp add: wall_ray_def ray_loop_bounds)
qed

lemma snake_piece_ray_observation_shape:
  assumes "snake_piece_ray_observation e = Inr a"
  shows "length a = 8 \<and> set a \<subseteq> {0..14}"
proof -
  have "a = rotate_obs (global_snake_direction e)
              (map (\<lambda>(dy, dx). snake_piece_ray e dy dx) ray_directions)"
    using assms by (simp add: snake_piece_ray_observation_def split: if_splits)
  then show ?thesis
    using rays_shape [of "snake_piece_ray e"]
    by (simp add: snake_piece_ray_def ray_loop_bounds)
qed

text \<open>
  The part of the observation layout that holds in every state: 25 elements, the body
  length first, then 24 ray distances between 0 and 14.
\<close>

lemma generate_state_shape:
  assumes "generate_state e = Inr e'"
  shows "length (state e') = 25 \<and> hd (state e') = int (length (snake e)) \<and>
         set (tl (state e')) \<subseteq> {0..14}"
proof -
  from assms obtain a w b where
    a: "apple_ray_observation e = Inr a" and w: "wall_ray_observation e = Inr w"
    and b: "snake_piece_ray_observation e = Inr b"
    and s: "state e' = [int (length (snake e))] @ a @ w @ b"
    by (auto simp: generate_state_def split: sum.splits)
  show ?thesis
    using apple_ray_observation_shape [OF a] wall_ray_observation_shape [OF w]
      snake_piece_ray_observation_shape [OF b]
    unfolding s by auto
qed

text \<open>No call of \<open>step\<close> returns the reward 10.\<close>

lemma step_reward_values:
  "step rnd action e = Some (e', Inr out) \<Longrightarrow> reward out = 0 \<or> reward out = 1"
  by (auto simp: step_def Let_def check_if_ate_apple_def
      split: if_splits sum.splits option.splits)

section \<open>The growth loop\<close>

text \<open>The loop returns at once from an index after which no piece is on the apple.\<close>

lemma ate_apple_loop_no_match:
  "(\<And>j. i \<le> j \<Longrightarrow> j < length (snake e) \<Longrightarrow> snake e ! j \<noteq> apple e) \<Longrightarrow>
   ate_apple_loop rnd i e = Some e"
proof (induction k \<equiv> "length (snake e) - i" arbitrary: i)
  case 0
  then have "\<not> i < length (snake e)" by simp
  then show ?case by (subst ate_apple_loop.simps) simp
next
  case (Suc k)
  then have lt: "i < length (snake e)" by simp
  have ne: "snake e ! i \<noteq> apple e" using Suc.prems [of i] lt by simp
  have "ate_apple_loop rnd (i + 1) e = Some e"
    using Suc.hyps(2) Suc.prems by (intro Suc.hyps(1)) auto
  then show ?case using lt ne by (subst ate_apple_loop.simps) simp
qed

text \<open>
  From an index \<open>i \<ge> 1\<close> on a body made of a head and copies of one tail position \<open>t\<close>,
  with the apple on \<open>t\<close>: if the next \<open>n\<close> apples are drawn on \<open>t\<close> and the one after them
  on a free tile, the loop returns with \<open>n + 1\<close> more pieces.
\<close>

lemma ate_apple_loop_tail:
  assumes "snake e = h # replicate m t" and "1 \<le> i" and "i \<le> m" and "apple e = t"
    and "\<And>j. j < n \<Longrightarrow>
           (randint 0 14 (rnd (draws e + 2 * j)), randint 0 14 (rnd (draws e + 2 * j + 1))) = t"
    and "(randint 0 14 (rnd (draws e + 2 * n)), randint 0 14 (rnd (draws e + 2 * n + 1))) = q"
    and "q \<noteq> t" and "q \<noteq> h"
  shows "ate_apple_loop rnd i e =
           Some (e\<lparr>snake := h # replicate (m + n + 1) t, apple := q,
                   draws := draws e + 2 * (n + 1)\<rparr>)"
  using assms
proof (induction n arbitrary: e m i)
  case 0
  let ?e' = "generate_new_random_apple rnd (e\<lparr>snake := snake e @ [last (snake e)]\<rparr>)"
  have lt: "i < length (snake e)" using 0 by simp
  have at: "snake e ! i = apple e" using 0 by (simp add: nth_Cons')
  have sn: "snake e @ [last (snake e)] = h # replicate (m + 1) t"
    using 0 by (cases m) (simp_all add: replicate_append_same)
  have e': "?e' = e\<lparr>snake := h # replicate (m + 1) t, apple := q, draws := draws e + 2\<rparr>"
    using 0(6) by (simp add: generate_new_random_apple_def sn)
  have "ate_apple_loop rnd (i + 1) ?e' = Some ?e'"
  proof (rule ate_apple_loop_no_match)
    fix j assume "j < length (snake ?e')"
    then show "snake ?e' ! j \<noteq> apple ?e'"
      unfolding e' using 0(7,8) by (auto simp: nth_Cons')
  qed
  then have "ate_apple_loop rnd i e = Some ?e'"
    using lt at by (subst ate_apple_loop.simps) simp
  then show ?case unfolding e' by simp
next
  case (Suc n)
  let ?e' = "generate_new_random_apple rnd (e\<lparr>snake := snake e @ [last (snake e)]\<rparr>)"
  have lt: "i < length (snake e)" using Suc.prems by simp
  have at: "snake e ! i = apple e" using Suc.prems by (simp add: nth_Cons')
  have sn: "snake e @ [last (snake e)] = h # replicate (m + 1) t"
    using Suc.prems by (cases m) (simp_all add: replicate_append_same)
  have e': "?e' = e\<lparr>snake := h # replicate (m + 1) t, apple := t, draws := draws e + 2\<rparr>"
    using Suc.prems(5) [of 0] by (simp add: generate_new_random_apple_def sn)
  have "ate_apple_loop rnd (i + 1) ?e' =
          Some (?e'\<lparr>snake := h # replicate (m + 1 + n + 1) t, apple := q,
                     draws := draws ?e' + 2 * (n + 1)\<rparr>)"
  proof (rule Suc.IH)
    show "snake ?e' = h # replicate (m + 1) t" unfolding e' by simp
    show "1 \<le> i + 1" by simp
    show "i + 1 \<le> m + 1" using Suc.prems by simp
    show "apple ?e' = t" unfolding e' by simp
    show "(randint 0 14 (rnd (draws ?e' + 2 * j)), randint 0 14 (rnd (draws ?e' + 2 * j + 1))) = t"
      if "j < n" for j
      using Suc.prems(5) [of "Suc j"] that unfolding e' by (simp add: add.assoc)
    show "(randint 0 14 (rnd (draws ?e' + 2 * n)), randint 0 14 (rnd (draws ?e' + 2 * n + 1))) = q"
      using Suc.prems(6) unfolding e' by (simp add: add.assoc)
    show "q \<noteq> t" "q \<noteq> h" using Suc.prems by simp_all
  qed
  then have "ate_apple_loop rnd i e =
          Some (?e'\<lparr>snake := h # replicate (m + 1 + n + 1) t, apple := q,
                     draws := draws ?e' + 2 * (n + 1)\<rparr>)"
    using lt at by (subst ate_apple_loop.simps) simp
  then show ?case unfolding e' by (simp add: add.assoc)
qed


lemma rnd_tail_223_tail:
  "j < 222 \<Longrightarrow>
   (randint 0 14 (rnd_tail_223 (2 + 2 * j)), randint 0 14 (rnd_tail_223 (2 + 2 * j + 1))) = (7, 10)"
  by (simp add: randint_def rnd_tail_223_def)

lemma rnd_tail_223_corner:
  "(randint 0 14 (rnd_tail_223 (2 + 2 * 222)), randint 0 14 (rnd_tail_223 (2 + 2 * 222 + 1))) = (0, 0)"
  by (simp add: randint_def rnd_tail_223_def)

lemma ate_apple_loop_grown_226: "ate_apple_loop rnd_tail_223 0 after_move = Some grown_226"
proof -
  let ?e1 = "after_move\<lparr>snake := (7, 11) # replicate 2 (7, 10), apple := (7, 10), draws := 2\<rparr>"
  have "ate_apple_loop rnd_tail_223 0 after_move = ate_apple_loop rnd_tail_223 (0 + 1) ?e1"
    by (subst ate_apple_loop.simps)
      (simp add: after_move_def before_apple_def generate_new_random_apple_def randint_def
        rnd_tail_223_def numeral_2_eq_2)
  also have "ate_apple_loop rnd_tail_223 (0 + 1) ?e1 =
      Some (?e1\<lparr>snake := (7, 11) # replicate (2 + 222 + 1) (7, 10), apple := (0, 0),
                 draws := draws ?e1 + 2 * (222 + 1)\<rparr>)"
  proof (rule ate_apple_loop_tail)
    show "snake ?e1 = (7, 11) # replicate 2 (7, 10)" by simp
    show "(randint 0 14 (rnd_tail_223 (draws ?e1 + 2 * j)),
           randint 0 14 (rnd_tail_223 (draws ?e1 + 2 * j + 1))) = (7, 10)" if "j < 222" for j
      using rnd_tail_223_tail [OF that] by simp
    show "(randint 0 14 (rnd_tail_223 (draws ?e1 + 2 * 222)),
           randint 0 14 (rnd_tail_223 (draws ?e1 + 2 * 222 + 1))) = (0, 0)"
      using rnd_tail_223_corner by simp
  qed simp_all
  also have "\<dots> = Some grown_226" by (simp add: grown_226_def)
  finally show ?thesis .
qed

lemma move_snake_nonempty: "move_snake e = Inr e2 \<Longrightarrow> snake e2 \<noteq> []"
  by (auto simp: move_snake_def Let_def split: list.splits)

text \<open>The loop never shortens the body.\<close>

lemma ate_apple_loop_length:
  assumes "ate_apple_loop rnd i e = Some e'"
  shows "length (snake e) \<le> length (snake e')"
proof (rule ate_apple_loop.raw_induct
    [where P = "\<lambda>_ _ e e'. length (snake e) \<le> length (snake e')", OF _ assms])
  fix loop :: "(nat \<Rightarrow> nat) \<Rightarrow> nat \<Rightarrow> env \<Rightarrow> env option"
  fix rnd i and e e' :: env
  assume IH: "\<And>r i e y. loop r i e = Some y \<Longrightarrow> length (snake e) \<le> length (snake y)"
  assume eq: "(if i < length (snake e)
      then if snake e ! i = apple e
           then loop rnd (i + 1)
                 (generate_new_random_apple rnd (e\<lparr>snake := snake e @ [last (snake e)]\<rparr>))
           else loop rnd (i + 1) e
      else Some e) = Some e'"
  show "length (snake e) \<le> length (snake e')"
  proof (cases "i < length (snake e)")
    case False
    with eq show ?thesis by simp
  next
    case lt: True
    show ?thesis
    proof (cases "snake e ! i = apple e")
      case True
      with lt eq have "loop rnd (i + 1)
          (generate_new_random_apple rnd (e\<lparr>snake := snake e @ [last (snake e)]\<rparr>)) = Some e'"
        by simp
      from IH [OF this] show ?thesis by (simp add: generate_new_random_apple_def)
    next
      case False
      with lt eq have "loop rnd (i + 1) e = Some e'" by simp
      from IH [OF this] show ?thesis .
    qed
  qed
qed

text \<open>
  A tick on which no piece is on the apple after movement: \<open>step\<close> returns its tuple,
  whatever the generator would draw.
\<close>

lemma step_returns_without_apple:
  assumes "0 \<le> action" and "action \<le> 2"
    and "move_snake (e\<lparr>global_snake_direction :=
           relative_to_global_direction (global_snake_direction e) action\<rparr>) = Inr e2"
    and "apple e2 \<notin> set (snake e2)"
  shows "\<exists>e' out. step rnd action e = Some (e', Inr out)"
proof -
  have a: "ate_apple_loop rnd 0 e2 = Some e2"
    using assms(4) by (intro ate_apple_loop_no_match) (metis nth_mem)
  from move_snake_nonempty [OF assms(3)] obtain e4 where "generate_state e2 = Inr e4"
    using generate_state_returns by blast
  then show ?thesis
    using assms(1,2,3) a by (simp add: step_def check_if_ate_apple_def Let_def)
qed

section \<open>Direction mapper: claim C8\<close>

text \<open>
  Claim C8. For every heading \<open>h\<close> in \<open>{0, 1, 2, 3, 4}\<close>: action 0 gives \<open>h + 1\<close> with 5
  wrapping to 0, action 2 gives \<open>h - 1\<close> with \<open>-1\<close> wrapping to 4, and action 1 gives \<open>h\<close>.
  On this range the two wraps are the residues modulo 5.
\<close>

theorem relative_to_global_direction_turn:
  "0 \<le> h \<Longrightarrow> h \<le> 4 \<Longrightarrow>
   relative_to_global_direction h 0 = (h + 1) mod 5 \<and>
   relative_to_global_direction h 2 = (h - 1) mod 5 \<and>
   relative_to_global_direction h 1 = h"
  unfolding relative_to_global_direction_def Let_def by auto

theorem relative_to_global_direction_turn_witness:
  "(0::int) \<le> 4 \<and> (4::int) \<le> 4 \<and> relative_to_global_direction 4 0 = 0 \<and>
   relative_to_global_direction 4 2 = 3 \<and> relative_to_global_direction 4 1 = 4"
  using relative_to_global_direction_turn [of 4] by simp

section \<open>Movement: claims C5 and C7\<close>

text \<open>
  Claim C5. On a body that has a head, \<open>move_snake\<close> returns; the body keeps its
  length; every piece \<open>i\<close> behind the head that differed from piece \<open>i - 1\<close> now holds
  what piece \<open>i - 1\<close> held, and every piece that was equal to its predecessor holds what
  it held; the head has moved one tile: heading 0 takes one from the row, heading 1 adds
  one to the column, heading 2 adds one to the row, headings 3 and 4 take one from the
  column. In particular under the heading that action 1 makes of heading 1 (Right), the
  row of the head is unchanged and its column is one more.
\<close>

theorem move_snake_spec:
  assumes ne: "snake e \<noteq> []"
  shows "\<exists>e'. move_snake e = Inr e' \<and> length (snake e') = length (snake e) \<and>
     (\<forall>i. 0 < i \<and> i < length (snake e) \<longrightarrow>
        (snake e ! i \<noteq> snake e ! (i - 1) \<longrightarrow> snake e' ! i = snake e ! (i - 1)) \<and>
        (snake e ! i = snake e ! (i - 1) \<longrightarrow> snake e' ! i = snake e ! i)) \<and>
     (global_snake_direction e = 0 \<longrightarrow>
        hd (snake e') = (fst (hd (snake e)) - 1, snd (hd (snake e)))) \<and>
     (global_snake_direction e = 1 \<longrightarrow>
        hd (snake e') = (fst (hd (snake e)), snd (hd (snake e)) + 1)) \<and>
     (global_snake_direction e = 2 \<longrightarrow>
        hd (snake e') = (fst (hd (snake e)) + 1, snd (hd (snake e)))) \<and>
     (global_snake_direction e = 3 \<or> global_snake_direction e = 4 \<longrightarrow>
        hd (snake e') = (fst (hd (snake e)), snd (hd (snake e)) - 1)) \<and>
     (global_snake_direction e = relative_to_global_direction 1 1 \<longrightarrow>
        hd (snake e') = (fst (hd (snake e)), snd (hd (snake e)) + 1))"
proof -
  from move_snake_body [OF ne] obtain t where
    m: "move_snake e =
          Inr (e\<lparr>snake := move_head (global_snake_direction e) (hd (snake e)) # t\<rparr>)"
    and l: "length t = length (snake e) - 1"
    and t: "\<And>i. 0 < i \<Longrightarrow> i < length (snake e) \<Longrightarrow> t ! (i - 1) = snake e ! (i - 1)"
    by blast
  let ?e' = "e\<lparr>snake := move_head (global_snake_direction e) (hd (snake e)) # t\<rparr>"
  have len: "length (snake ?e') = length (snake e)" using l ne by (cases "snake e") auto
  have body: "(snake e ! i \<noteq> snake e ! (i - 1) \<longrightarrow> snake ?e' ! i = snake e ! (i - 1)) \<and>
        (snake e ! i = snake e ! (i - 1) \<longrightarrow> snake ?e' ! i = snake e ! i)"
    if "0 < i \<and> i < length (snake e)" for i
    using t [of i] that by (auto simp: nth_Cons')
  have hd: "hd (snake ?e') = move_head (global_snake_direction e) (hd (snake e))" by simp
  have r: "relative_to_global_direction 1 1 = 1"
    by (simp add: relative_to_global_direction_def)
  show ?thesis
    apply (rule exI [of _ ?e'])
    apply (intro conjI)
           apply (rule m)
          apply (rule len)
    using body apply blast
    unfolding hd r move_head_def by auto
qed

theorem move_snake_spec_witness:
  "snake before_apple \<noteq> [] \<and> move_snake before_apple = Inr after_move \<and>
   hd (snake after_move) =
     (fst (hd (snake before_apple)), snd (hd (snake before_apple)) + 1) \<and>
   snake after_move ! 1 = snake before_apple ! 0"
proof -
  have ne: "snake before_apple \<noteq> []" by (simp add: before_apple_def)
  have m: "move_snake before_apple = Inr after_move" by code_simp
  from move_snake_spec [OF ne] m
  have "hd (snake after_move) =
          (fst (hd (snake before_apple)), snd (hd (snake before_apple)) + 1) \<and>
        snake after_move ! 1 = snake before_apple ! 0"
    by (auto simp: before_apple_def)
  with ne m show ?thesis by simp
qed

text \<open>
  Claim C7. Heading 4 behaves as heading 3: \<open>move_snake\<close> gives the same body (or the
  same failure) under both, and \<open>rotate_obs\<close> gives the same vector under both.
\<close>

theorem heading_4_as_3:
  "map_sum id snake (move_snake (e\<lparr>global_snake_direction := 4\<rparr>)) =
   map_sum id snake (move_snake (e\<lparr>global_snake_direction := 3\<rparr>)) \<and>
   rotate_obs 4 obs = rotate_obs 3 obs"
  by (simp add: move_snake_def move_head_def rotate_obs_def Let_def split: list.splits)

section \<open>Termination and reward: claim C6\<close>

text \<open>
  Claim C6. For every action in \<open>{0, 1, 2}\<close>, whenever the movement succeeds and the
  growth loop returns, \<open>step\<close> returns its tuple and leaves the body that movement and
  growth have made; the returned \<open>done\<close> is true exactly when the head of that body is
  outside rows and columns 0 to 14, or is equal to another piece of the body, or the body
  has 225 pieces; and when \<open>done\<close> is true the reward is 0.
\<close>

theorem step_done_reward:
  assumes lo: "0 \<le> action" and hi: "action \<le> 2"
    and m: "move_snake (e\<lparr>global_snake_direction :=
              relative_to_global_direction (global_snake_direction e) action\<rparr>) = Inr e2"
    and a: "ate_apple_loop rnd 0 e2 = Some e3"
  shows "\<exists>e' out. step rnd action e = Some (e', Inr out) \<and> snake e' = snake e3 \<and>
     done_flag out =
       (fst (hd (snake e3)) < 0 \<or> 14 < fst (hd (snake e3)) \<or>
        snd (hd (snake e3)) < 0 \<or> 14 < snd (hd (snake e3)) \<or>
        hd (snake e3) \<in> set (tl (snake e3)) \<or>
        length (snake e3) = 225) \<and>
     (done_flag out \<longrightarrow> reward out = 0)"
proof -
  have "snake e2 \<noteq> []" using m by (rule move_snake_nonempty)
  then have "snake e3 \<noteq> []" using ate_apple_loop_length [OF a] by auto
  then obtain e4 where g: "generate_state e3 = Inr e4"
    using generate_state_returns by blast
  have sn: "snake e4 = snake e3" using g by (rule generate_state_snake)
  let ?d = "check_if_hit_wall e3 \<or> check_if_hit_itself e3 \<or> check_if_won e3"
  let ?out = "\<lparr>observation = state e4, reward = (if \<not> ?d then 1 else 0), done_flag = ?d,
               logged = (if ?d then [Warn_step_after_done] else [])\<rparr>"
  have st: "step rnd action e = Some (e4, Inr ?out)"
    using lo hi m a g by (simp add: step_def check_if_ate_apple_def Let_def)
  have w: "check_if_hit_wall e3 =
             (fst (hd (snake e3)) < 0 \<or> 14 < fst (hd (snake e3)) \<or>
              snd (hd (snake e3)) < 0 \<or> 14 < snd (hd (snake e3)))"
    by (auto simp: check_if_hit_wall_def Let_def)
  have i: "check_if_hit_itself e3 = (hd (snake e3) \<in> set (tl (snake e3)))"
    by (simp add: check_if_hit_itself_def)
  have n: "check_if_won e3 = (length (snake e3) = 225)"
    by (auto simp: check_if_won_def x_size_def y_size_def)
  have d: "done_flag ?out =
       (fst (hd (snake e3)) < 0 \<or> 14 < fst (hd (snake e3)) \<or>
        snd (hd (snake e3)) < 0 \<or> 14 < snd (hd (snake e3)) \<or>
        hd (snake e3) \<in> set (tl (snake e3)) \<or>
        length (snake e3) = 225)"
    unfolding w i n by simp
  have r: "done_flag ?out \<longrightarrow> reward ?out = 0" by simp
  from st sn d r show ?thesis by blast
qed

theorem step_done_reward_witness:
  "(0::int) \<le> 1 \<and> (1::int) \<le> 2 \<and>
   move_snake (at_right_wall\<lparr>global_snake_direction :=
       relative_to_global_direction (global_snake_direction at_right_wall) 1\<rparr>) =
     Inr (at_right_wall\<lparr>snake := [(3, 15), (3, 14), (3, 13)]\<rparr>) \<and>
   ate_apple_loop rnd_corner 0 (at_right_wall\<lparr>snake := [(3, 15), (3, 14), (3, 13)]\<rparr>) =
     Some (at_right_wall\<lparr>snake := [(3, 15), (3, 14), (3, 13)]\<rparr>) \<and>
   step rnd_corner 1 at_right_wall = Some (past_right_wall, Inr past_right_wall_out) \<and>
   snake past_right_wall = [(3, 15), (3, 14), (3, 13)] \<and>
   done_flag past_right_wall_out \<and> reward past_right_wall_out = 0"
proof -
  let ?m = "at_right_wall\<lparr>snake := [(3, 15), (3, 14), (3, 13)]\<rparr>"
  have m: "move_snake (at_right_wall\<lparr>global_snake_direction :=
       relative_to_global_direction (global_snake_direction at_right_wall) 1\<rparr>) = Inr ?m"
    by code_simp
  have a: "ate_apple_loop rnd_corner 0 ?m = Some ?m" by code_simp
  have s: "step rnd_corner 1 at_right_wall = Some (past_right_wall, Inr past_right_wall_out)"
    by code_simp
  have h: "snake ?m = [(3, 15), (3, 14), (3, 13)]" by simp
  from step_done_reward [OF _ _ m a, of] s
  have "snake past_right_wall = [(3, 15), (3, 14), (3, 13)] \<and>
        done_flag past_right_wall_out \<and> reward past_right_wall_out = 0"
    unfolding h by auto
  with m a s show ?thesis by simp
qed

section \<open>Invalid actions: claim C10\<close>

text \<open>
  Claim C10. With an action outside \<open>{0, 1, 2}\<close>, \<open>step\<close> raises the assertion error
  and leaves the environment as it was: body, apple, heading and observation.
\<close>

theorem step_invalid_action:
  "action < 0 \<or> 2 < action \<Longrightarrow> step rnd action e = Some (e, Inl AssertionError)"
  by (auto simp: step_def)

theorem step_invalid_action_witness:
  "((3::int) < 0 \<or> 2 < (3::int)) \<and>
   step rnd_corner 3 before_apple = Some (before_apple, Inl AssertionError)"
  using step_invalid_action [of 3 rnd_corner before_apple] by simp

section \<open>Where the code departs from the claims: C1, C2, C3, C4, C9\<close>

text \<open>
  Claim C1 says that a tick with growth that does not end the episode is rewarded 10.
  Six straight steps after \<open>reset\<close> the head is one tile before the apple; the next
  straight step moves the head onto the apple, the body grows from 2 to 3 pieces, the
  episode goes on, and the reward returned is 1.
\<close>

theorem step_reward_after_growth:
  "map_option fst (episode rnd_corner [1, 1, 1, 1, 1, 1]) = Some before_apple \<and>
   move_snake before_apple = Inr after_move \<and>
   apple after_move \<in> set (snake after_move) \<and>
   map_option (map_prod (length \<circ> snake) (map_sum id (\<lambda>out. (reward out, done_flag out))))
     (step rnd_corner 1 before_apple) = Some (3, Inr (1, False))"
  by code_simp

text \<open>
  Claim C2 says that index 0 of a rotated ray vector is the ray that points where the
  snake moves. After \<open>reset\<close> the heading is 1: the head moves by \<open>(0, 1)\<close>, the ray at
  index 0 of the rotated vector is the one cast along \<open>(0, -1)\<close>, and the apple, which
  is straight ahead at distance 6, is reported at index 4.
\<close>

theorem rotate_obs_index0_at_reset:
  "global_snake_direction (fst (reset fresh)) = 1 \<and>
   move_head 1 (0, 0) = (0, 1) \<and>
   rotate_obs 1 ray_directions ! 0 = (0, -1) \<and>
   apple_ray (fst (reset fresh)) 0 1 = 6 \<and>
   apple_ray_observation (fst (reset fresh)) = Inr [14, 14, 14, 14, 6, 14, 14, 14]"
  by code_simp

text \<open>
  Claim C3 says that a tick with growth adds exactly one piece, whatever the new apple
  is. From the same state, one tile before the apple, with the new apple drawn at
  \<open>(7, 10)\<close>: after movement the head is on the apple, and the growth phase leaves a
  body of 4 pieces, two more than the 2 before the tick.
\<close>

theorem check_if_ate_apple_grows_twice:
  "map_option fst (episode rnd_tail_once [1, 1, 1, 1, 1, 1]) = Some before_apple \<and>
   length (snake before_apple) = 2 \<and>
   move_snake before_apple = Inr after_move \<and>
   apple after_move \<in> set (snake after_move) \<and>
   map_option (snake \<circ> fst) (check_if_ate_apple rnd_tail_once after_move) =
     Some [(7, 11), (7, 10), (7, 10), (7, 10)]"
  by code_simp

text \<open>
  Claim C4 says that a \<open>step\<close> on an episode that is already done logs a warning. In
  this episode the eighth step takes the head through the top wall and returns
  \<open>done = True\<close>; the warning is logged by that step and by the ninth, and the tenth step,
  which brings the head back into the grid, returns \<open>done = False\<close> and logs nothing.
\<close>

theorem step_warning_trace:
  "map_option (\<lambda>(e, rs). map (map_sum id (\<lambda>out. (done_flag out, logged out))) rs)
     (episode rnd_corner [2, 1, 1, 1, 1, 1, 1, 1, 0, 0]) =
   Some [Inr (False, []), Inr (False, []), Inr (False, []), Inr (False, []),
         Inr (False, []), Inr (False, []), Inr (False, []),
         Inr (True, [Warn_step_after_done]), Inr (True, [Warn_step_after_done]),
         Inr (False, [])]"
  by code_simp

text \<open>
  Claim C9 says that the length field of every observation is at most 225. In this
  run the first six steps reach the state one tile before the apple, with 2 in the
  length field; the seventh step moves the head onto the apple, 223 new apples in a row
  are drawn on the tail, the body is left with 226 pieces, the observation returned has
  226 in its length field, and \<open>done\<close> is false.
\<close>

theorem observation_length_field_226:
  "map_option fst (episode rnd_tail_223 [1, 1, 1, 1, 1, 1]) = Some before_apple \<and>
   hd (state before_apple) = 2 \<and>
   map_option (\<lambda>(e, r). (length (snake e),
                 map_sum id (\<lambda>out. (hd (observation out), done_flag out)) r))
     (step rnd_tail_223 1 before_apple) = Some (226, Inr (226, False))"
proof -
  have reach: "map_option fst (episode rnd_tail_223 [1, 1, 1, 1, 1, 1]) = Some before_apple"
    by code_simp
  have st: "hd (state before_apple) = 2" by (simp add: before_apple_def)
  have d: "before_apple\<lparr>global_snake_direction :=
             relative_to_global_direction (global_snake_direction before_apple) 1\<rparr> = before_apple"
    by (simp add: before_apple_def relative_to_global_direction_def)
  have m: "move_snake before_apple = Inr after_move" by code_simp
  have c: "check_if_ate_apple rnd_tail_223 after_move = Some (grown_226, None)"
    by (simp add: check_if_ate_apple_def ate_apple_loop_grown_226)
  have len: "length (snake grown_226) = 226" by (simp add: grown_226_def)
  have w: "\<not> check_if_hit_wall grown_226" by (simp add: check_if_hit_wall_def grown_226_def)
  have i: "\<not> check_if_hit_itself grown_226"
    by (simp add: check_if_hit_itself_def grown_226_def)
  have n: "\<not> check_if_won grown_226"
    by (simp add: check_if_won_def x_size_def y_size_def len)
  obtain e4 where g: "generate_state grown_226 = Inr e4"
    using generate_state_returns [of grown_226] by (auto simp: grown_226_def)
  have s4: "length (snake e4) = 226" using generate_state_snake [OF g] len by simp
  have h4: "hd (state e4) = 226" using generate_state_shape [OF g] len by simp
  have "step rnd_tail_223 1 before_apple =
          Some (e4, Inr \<lparr>observation = state e4, reward = 1, done_flag = False, logged = []\<rparr>)"
    by (simp add: step_def d m c w i n g)
  then show ?thesis using reach st s4 h4 by simp
qed

end
